theory Spec2Isabelle
  imports Main "HOL-Library.AList"
begin

section \<open>Values, dictionaries and errors\<close>

text \<open>
  The module \<^verbatim>\<open>pymatgen/io/core.py\<close> defines \<^verbatim>\<open>InputFile\<close>, \<^verbatim>\<open>InputSet\<close> and
  \<^verbatim>\<open>InputGenerator\<close>. Python values that occur as file contents or as keyword
  parameters are represented by \<open>pyval\<close>. \<open>InputFile c t\<close> is an instance of the
  \<^verbatim>\<open>InputFile\<close> subclass named \<open>c\<close> whose implementation of the abstract method
  \<^verbatim>\<open>get_str\<close> returns \<open>t\<close>; \<open>PObj c r\<close> is any other object, of class \<open>c\<close>, whose
  \<^verbatim>\<open>str()\<close> is \<open>r\<close>.
\<close>

datatype input_file = InputFile (file_cls: string) (payload: string)

datatype pyval = PNone | PStr string | PFile input_file | PObj string string

text \<open>
  A Python \<^verbatim>\<open>dict\<close> keeps insertion order and has unique keys: an association list,
  stored with \<open>AList.update\<close> (an existing key keeps its position, a new key goes to
  the end), which is what \<^verbatim>\<open>d[k] = v\<close> does.
\<close>

type_synonym 'v pydict = "(string \<times> 'v) list"

text \<open>
  The exceptions. \<open>AttributeError c k\<close> stands for the message
  \<^verbatim>\<open>'c' object has no attribute 'k'\<close>; \<open>FileExistsError\<close> carries the argument it is
  raised with, the errors of the operating system carry the path.
\<close>

datatype error =
    KeyError string
  | AttributeError string string
  | NotImplementedError string
  | FileExistsError string
  | FileNotFoundError "string list"
  | IsADirectoryError "string list"
  | NotADirectoryError "string list"

definition dict_keys :: "'v pydict \<Rightarrow> string list" where
  "dict_keys d = map fst d"

definition dict_getitem :: "'v pydict \<Rightarrow> string \<Rightarrow> error + 'v" where
  "dict_getitem d k = (case map_of d k of None \<Rightarrow> Inl (KeyError k) | Some v \<Rightarrow> Inr v)"

definition dict_setitem :: "'v pydict \<Rightarrow> string \<Rightarrow> 'v \<Rightarrow> 'v pydict" where
  "dict_setitem d k v = AList.update k v d"

definition dict_delitem :: "'v pydict \<Rightarrow> string \<Rightarrow> error + 'v pydict" where
  "dict_delitem d k =
     (if k \<in> set (dict_keys d) then Inr (AList.delete k d) else Inl (KeyError k))"

text \<open>\<^verbatim>\<open>d.update(other)\<close>: the items of \<open>other\<close> are stored into \<open>d\<close> one by one, in order.\<close>

definition dict_update :: "'v pydict \<Rightarrow> 'v pydict \<Rightarrow> 'v pydict" where
  "dict_update d other = fold (\<lambda>(k, v) acc. dict_setitem acc k v) other d"

text \<open>The dict display \<^verbatim>\<open>{**a, **b}\<close>: a new dict, filled from \<open>a\<close> and then from \<open>b\<close>.\<close>

definition dict_display2 :: "'v pydict \<Rightarrow> 'v pydict \<Rightarrow> 'v pydict" where
  "dict_display2 a b = dict_update (dict_update [] a) b"

section \<open>InputFile\<close>

text \<open>\<^verbatim>\<open>get_str\<close> is abstract: the string the concrete subclass returns is the payload.\<close>

definition get_str :: "input_file \<Rightarrow> string" where
  "get_str x = payload x"

text \<open>\<^verbatim>\<open>InputFile.__str__\<close>.\<close>

definition InputFile_str :: "input_file \<Rightarrow> string" where
  "InputFile_str x = get_str x"

text \<open>The builtin \<^verbatim>\<open>str(v)\<close>: an \<^verbatim>\<open>InputFile\<close> answers with its \<^verbatim>\<open>__str__\<close>.\<close>

fun str :: "pyval \<Rightarrow> string" where
  "str (PFile x) = InputFile_str x"
| "str (PStr s) = s"
| "str PNone = ''None''"
| "str (PObj c r) = r"

definition from_str :: "string \<Rightarrow> string \<Rightarrow> error + pyval" where
  "from_str cls contents = Inl (NotImplementedError (''from_str has not been implemented in '' @ cls))"

section \<open>InputSet\<close>

text \<open>
  A method \<^verbatim>\<open>InputSet.__name__\<close> is the constant \<open>InputSet_name\<close>. A method that
  mutates \<^verbatim>\<open>self\<close> returns the new state of the instance; a method that raises returns
  the exception on the left of a sum.

  An instance is its class (the name of \<^verbatim>\<open>type(self)\<close> and the names of its proper
  base classes) and its instance dictionary \<^verbatim>\<open>__dict__\<close>, kept in three fields: the
  entry \<^verbatim>\<open>inputs\<close>, the entry \<^verbatim>\<open>_kwargs\<close>, and the remaining entries \<open>attrs\<close>.
  The parameter \<^verbatim>\<open>inputs\<close> cannot occur among the keyword arguments (Python binds it to
  the named parameter); a keyword argument called \<^verbatim>\<open>_kwargs\<close> would rebind the second
  field to a value of another type and is not represented.
\<close>

record input_set =
  cls_name :: string
  cls_bases :: "string list"
  inputs :: "pyval pydict"
  kwargs :: "pyval pydict"
  attrs :: "pyval pydict"

text \<open>\<^verbatim>\<open>InputSet.__init__(self, inputs=None, **kwargs)\<close>, called as \<^verbatim>\<open>cls(inputs, **kwargs)\<close>.\<close>

definition InputSet_init ::
  "string \<Rightarrow> string list \<Rightarrow> pyval pydict option \<Rightarrow> pyval pydict \<Rightarrow> input_set" where
  "InputSet_init c bs inp kw =
     \<lparr>cls_name = c, cls_bases = bs,
      inputs = (case inp of None \<Rightarrow> [] | Some d \<Rightarrow> (if d = [] then [] else d)),
      kwargs = kw,
      attrs = dict_update [] kw\<rparr>"

definition InputSet_len :: "input_set \<Rightarrow> nat" where
  "InputSet_len s = length (inputs s)"

definition InputSet_iter :: "input_set \<Rightarrow> string list" where
  "InputSet_iter s = dict_keys (inputs s)"

definition InputSet_getitem :: "input_set \<Rightarrow> string \<Rightarrow> error + pyval" where
  "InputSet_getitem s key = dict_getitem (inputs s) key"

definition InputSet_setitem :: "input_set \<Rightarrow> string \<Rightarrow> pyval \<Rightarrow> input_set" where
  "InputSet_setitem s key v = s\<lparr>inputs := dict_setitem (inputs s) key v\<rparr>"

definition InputSet_delitem :: "input_set \<Rightarrow> string \<Rightarrow> error + input_set" where
  "InputSet_delitem s key =
     (case dict_delitem (inputs s) key of
        Inl e \<Rightarrow> Inl e
      | Inr d \<Rightarrow> Inr (s\<lparr>inputs := d\<rparr>))"

text \<open>
  \<^verbatim>\<open>self.get(key)\<close> is the mixin \<^verbatim>\<open>Mapping.get\<close> that \<^verbatim>\<open>MutableMapping\<close> provides:
  \<^verbatim>\<open>self[key]\<close>, and \<^verbatim>\<open>None\<close> when that raises \<^verbatim>\<open>KeyError\<close>.
\<close>

definition InputSet_get :: "input_set \<Rightarrow> string \<Rightarrow> pyval" where
  "InputSet_get s key = (case InputSet_getitem s key of Inl e \<Rightarrow> PNone | Inr v \<Rightarrow> v)"

definition InputSet_getattr :: "input_set \<Rightarrow> string \<Rightarrow> error + pyval" where
  "InputSet_getattr s key =
     (if key \<in> set (dict_keys (kwargs s)) then Inr (InputSet_get s key)
      else Inl (AttributeError (cls_name s) key))"

text \<open>
  Attribute access \<^verbatim>\<open>self.key\<close>: the entry of the instance dictionary when there is
  one, and the fallback \<^verbatim>\<open>__getattr__\<close> otherwise (names defined on the class itself,
  such as the methods, are not represented). The three fields of the instance
  dictionary hold values of different types.
\<close>

datatype attr_value = AInputs "pyval pydict" | AKwargs "pyval pydict" | AValue pyval

definition instance_dict :: "input_set \<Rightarrow> string \<Rightarrow> attr_value option" where
  "instance_dict s key =
     (if key = ''inputs'' then Some (AInputs (inputs s))
      else if key = ''_kwargs'' then Some (AKwargs (kwargs s))
      else map_option AValue (map_of (attrs s) key))"

definition getattr :: "input_set \<Rightarrow> string \<Rightarrow> error + attr_value" where
  "getattr s key =
     (case instance_dict s key of
        Some v \<Rightarrow> Inr v
      | None \<Rightarrow> (case InputSet_getattr s key of Inl e \<Rightarrow> Inl e | Inr v \<Rightarrow> Inr (AValue v)))"

text \<open>
  The operand of \<^verbatim>\<open>|\<close> is a \<^verbatim>\<open>dict\<close>, an \<^verbatim>\<open>InputSet\<close> instance or anything else;
  the result is the sentinel \<^verbatim>\<open>NotImplemented\<close> or a new instance.
\<close>

datatype operand = ODict "pyval pydict" | OSet input_set | OOther pyval

datatype or_result = NotImplemented | Result input_set

text \<open>\<^verbatim>\<open>isinstance(x, C)\<close> for the class named \<open>c\<close>: \<open>c\<close> is the class of \<open>x\<close> or one of its bases.\<close>

definition isinstance :: "input_set \<Rightarrow> string \<Rightarrow> bool" where
  "isinstance x c = (c \<in> set (cls_name x # cls_bases x))"

definition InputSet_or :: "input_set \<Rightarrow> operand \<Rightarrow> or_result" where
  "InputSet_or self other =
     (let other1 = (case other of
                      ODict d \<Rightarrow> OSet (InputSet_init (cls_name self) (cls_bases self) (Some d) [])
                    | _ \<Rightarrow> other)
      in case other1 of
           OSet b \<Rightarrow>
             (if \<not> isinstance b (cls_name self) then NotImplemented
              else Result (InputSet_init (cls_name self) (cls_bases self)
                             (Some (dict_display2 (inputs self) (inputs b))) (kwargs self)))
         | _ \<Rightarrow> NotImplemented)"

definition from_directory :: "string \<Rightarrow> string list \<Rightarrow> error + input_set" where
  "from_directory cls directory =
     Inl (NotImplementedError (''from_directory has not been implemented in '' @ cls))"

definition validate :: "input_set \<Rightarrow> error + bool" where
  "validate self =
     Inl (NotImplementedError (''.validate() has not been implemented in '' @ cls_name self))"

section \<open>InputGenerator\<close>

record input_generator =
  gen_cls :: string
  gen_settings :: "pyval pydict"

definition get_input_set ::
  "input_generator \<Rightarrow> pyval list \<Rightarrow> pyval pydict \<Rightarrow> error + input_set" where
  "get_input_set self args kw =
     Inl (NotImplementedError (''get_input_set has not been implemented in '' @ gen_cls self))"

section \<open>Paths and the file system\<close>

text \<open>
  A \<^verbatim>\<open>pathlib.Path\<close> is the list of its parts. \<open>Path\<close> parses a string: the parts are
  separated by \<^verbatim>\<open>/\<close>, empty parts and \<^verbatim>\<open>.\<close> are dropped, and a leading \<^verbatim>\<open>/\<close> is the
  root part (a root of exactly two slashes, which POSIX keeps apart, is not told from
  the plain root). \<open>truediv\<close> is the operator \<^verbatim>\<open>path / fname\<close>: an absolute right
  operand replaces the left one.
\<close>

type_synonym path = "string list"

fun split_parts :: "string \<Rightarrow> string \<Rightarrow> string list" where
  "split_parts cur [] = [cur]"
| "split_parts cur (c # cs) =
     (if c = CHR ''/'' then cur # split_parts [] cs else split_parts (cur @ [c]) cs)"

definition Path :: "string \<Rightarrow> path" where
  "Path s = (if s \<noteq> [] \<and> hd s = CHR ''/'' then [''/''] else [])
            @ filter (\<lambda>p. p \<noteq> [] \<and> p \<noteq> ''.'') (split_parts [] s)"

definition is_absolute :: "path \<Rightarrow> bool" where
  "is_absolute p = (p \<noteq> [] \<and> hd p = ''/'')"

definition truediv :: "path \<Rightarrow> string \<Rightarrow> path" where
  "truediv p fname = (let q = Path fname in if is_absolute q then q else p @ q)"

definition parent :: "path \<Rightarrow> path" where
  "parent p = (if p = [''/''] then p else butlast p)"

text \<open>\<^verbatim>\<open>os.fspath(p)\<close>: the parts joined by \<^verbatim>\<open>/\<close>.\<close>

fun join_parts :: "string list \<Rightarrow> string" where
  "join_parts [] = []"
| "join_parts [x] = x"
| "join_parts (x # y # ys) = x @ ''/'' @ join_parts (y # ys)"

definition fspath :: "path \<Rightarrow> string" where
  "fspath p = (if is_absolute p then ''/'' @ join_parts (tl p) else join_parts p)"

text \<open>
  A file-system state maps a path to what is there: a directory, a regular file with
  the text written to it (texts go through \<^verbatim>\<open>monty.io.zopen\<close>, which picks the
  on-disk encoding from the extension of the path; the state records the text), or a
  zip archive with its members. The current directory (the empty path) and the root
  are always directories.
\<close>

datatype node = Dir | File string | Zip "(path \<times> node) list"

type_synonym fs = "path \<Rightarrow> node option"

definition node_at :: "fs \<Rightarrow> path \<Rightarrow> node option" where
  "node_at fs p = (if p = [] \<or> p = [''/''] then Some Dir else fs p)"

definition exists :: "fs \<Rightarrow> path \<Rightarrow> bool" where
  "exists fs p = (node_at fs p \<noteq> None)"

text \<open>Opening \<open>p\<close> for writing (creating or truncating it) asks this of the state.\<close>

definition open_w_check :: "fs \<Rightarrow> path \<Rightarrow> error option" where
  "open_w_check fs p =
     (case node_at fs p of
        Some Dir \<Rightarrow> Some (IsADirectoryError p)
      | Some _ \<Rightarrow> None
      | None \<Rightarrow>
          (case node_at fs (parent p) of
             None \<Rightarrow> Some (FileNotFoundError p)
           | Some Dir \<Rightarrow> None
           | Some _ \<Rightarrow> Some (NotADirectoryError p)))"

text \<open>
  \<^verbatim>\<open>Path.mkdir(parents=True, exist_ok=True)\<close>, on the reversed path: an existing
  directory is accepted, a missing parent is created first.
\<close>

fun mkdir_rev :: "path \<Rightarrow> fs \<Rightarrow> error + fs" where
  "mkdir_rev [] fs = Inr fs"
| "mkdir_rev (c # r) fs =
     (let p = rev (c # r) in
      case node_at fs p of
        Some Dir \<Rightarrow> Inr fs
      | Some _ \<Rightarrow> Inl (FileExistsError (fspath p))
      | None \<Rightarrow>
          (case node_at fs (rev r) of
             Some Dir \<Rightarrow> Inr (fs(p \<mapsto> Dir))
           | Some _ \<Rightarrow> Inl (NotADirectoryError p)
           | None \<Rightarrow>
               (case mkdir_rev r fs of
                  Inl e \<Rightarrow> Inl e
                | Inr fs' \<Rightarrow> Inr (fs'(p \<mapsto> Dir)))))"

definition mkdir :: "path \<Rightarrow> fs \<Rightarrow> error + fs" where
  "mkdir p fs = mkdir_rev (rev p) fs"

text \<open>\<^verbatim>\<open>Path.touch()\<close>: an existing path is left as it is, a missing one becomes an empty file.\<close>

definition touch :: "path \<Rightarrow> fs \<Rightarrow> error + fs" where
  "touch p fs =
     (if exists fs p then Inr fs
      else case open_w_check fs p of
             Some e \<Rightarrow> Inl e
           | None \<Rightarrow> Inr (fs(p \<mapsto> File [])))"

text \<open>\<^verbatim>\<open>with zopen(p, mode="wt", encoding="utf-8") as file: file.write(txt)\<close>.\<close>

definition zopen_write :: "path \<Rightarrow> string \<Rightarrow> fs \<Rightarrow> error + fs" where
  "zopen_write p txt fs =
     (case open_w_check fs p of
        Some e \<Rightarrow> Inl e
      | None \<Rightarrow> Inr (fs(p \<mapsto> File txt)))"

definition write_file :: "input_file \<Rightarrow> path \<Rightarrow> fs \<Rightarrow> error + fs" where
  "write_file self filename fs = zopen_write filename (get_str self) fs"

section \<open>InputSet.write_input\<close>

text \<open>
  The body of the loop \<^verbatim>\<open>for fname, contents in self.inputs.items()\<close>, for one
  entry. An exception leaves the state reached so far, so the result is the state
  together with the exception raised, if any.
\<close>

definition write_entry ::
  "path \<Rightarrow> bool \<Rightarrow> bool \<Rightarrow> string \<Rightarrow> pyval \<Rightarrow> fs \<Rightarrow> fs \<times> error option" where
  "write_entry path make_dir overwrite fname contents fs =
     (let file_path = truediv path fname in
      case (if \<not> exists fs path \<and> make_dir then mkdir path fs else Inr fs) of
        Inl e \<Rightarrow> (fs, Some e)
      | Inr fs1 \<Rightarrow>
          if exists fs1 file_path \<and> \<not> overwrite then (fs1, Some (FileExistsError fname))
          else
            (case touch file_path fs1 of
               Inl e \<Rightarrow> (fs1, Some e)
             | Inr fs2 \<Rightarrow>
                 (case (case contents of
                          PFile x \<Rightarrow> write_file x file_path fs2
                        | _ \<Rightarrow> zopen_write file_path (str contents) fs2) of
                    Inl e \<Rightarrow> (fs2, Some e)
                  | Inr fs3 \<Rightarrow> (fs3, None))))"

text \<open>The loop: the entries in the order of the mapping, stopping at the first exception.\<close>

fun write_entries ::
  "path \<Rightarrow> bool \<Rightarrow> bool \<Rightarrow> pyval pydict \<Rightarrow> fs \<Rightarrow> fs \<times> error option" where
  "write_entries path make_dir overwrite [] fs = (fs, None)"
| "write_entries path make_dir overwrite ((fname, contents) # rest) fs =
     (case write_entry path make_dir overwrite fname contents fs of
        (fs1, Some e) \<Rightarrow> (fs1, Some e)
      | (fs1, None) \<Rightarrow> write_entries path make_dir overwrite rest fs1)"

text \<open>
  The archive under construction: the file-system state, the members added so far,
  and whether the archive's own path still names the open archive (\<^verbatim>\<open>os.remove\<close> of
  that path unlinks it, and what is written at closing is then not in the directory).
  \<open>arcname\<close> is the member name \<^verbatim>\<open>ZipFile.write\<close> derives from a path: the path
  without its root.
\<close>

record zip_state =
  zfs :: fs
  members :: "(path \<times> node) list"
  linked :: bool

definition arcname :: "path \<Rightarrow> path" where
  "arcname p = (if is_absolute p then tl p else p)"

text \<open>
  The body of the loop \<^verbatim>\<open>for fname in self.inputs\<close> with its \<^verbatim>\<open>try\<close>:
  \<^verbatim>\<open>zip_file.write\<close> raises \<^verbatim>\<open>FileNotFoundError\<close> for a missing path, which is passed
  over; \<^verbatim>\<open>os.remove\<close> of a directory raises an error that is not caught.
\<close>

definition zip_entry :: "path \<Rightarrow> path \<Rightarrow> string \<Rightarrow> zip_state \<Rightarrow> zip_state \<times> error option" where
  "zip_entry path filename fname z =
     (let file_path = truediv path fname in
      case node_at (zfs z) file_path of
        None \<Rightarrow> (z, None)
      | Some n \<Rightarrow>
          (let z1 = z\<lparr>members := members z @ [(arcname file_path, n)]\<rparr> in
           if n = Dir then (z1, Some (IsADirectoryError file_path))
           else (z1\<lparr>zfs := (zfs z1)(file_path := None),
                    linked := (linked z1 \<and> file_path \<noteq> filename)\<rparr>, None)))"

fun zip_entries :: "path \<Rightarrow> path \<Rightarrow> string list \<Rightarrow> zip_state \<Rightarrow> zip_state \<times> error option" where
  "zip_entries path filename [] z = (z, None)"
| "zip_entries path filename (fname # rest) z =
     (case zip_entry path filename fname z of
        (z1, Some e) \<Rightarrow> (z1, Some e)
      | (z1, None) \<Rightarrow> zip_entries path filename rest z1)"

text \<open>Leaving the \<^verbatim>\<open>with ZipFile(...)\<close> block closes the archive, also on an exception.\<close>

definition zip_close :: "path \<Rightarrow> zip_state \<Rightarrow> fs" where
  "zip_close filename z =
     (if linked z then (zfs z)(filename \<mapsto> Zip (members z)) else zfs z)"

definition zip_inputs_phase :: "input_set \<Rightarrow> path \<Rightarrow> fs \<Rightarrow> fs \<times> error option" where
  "zip_inputs_phase self path fs =
     (let filename = truediv path (cls_name self @ ''.zip'') in
      case open_w_check fs filename of
        Some e \<Rightarrow> (fs, Some e)
      | None \<Rightarrow>
          (case zip_entries path filename (dict_keys (inputs self))
                  \<lparr>zfs = fs(filename \<mapsto> File []), members = [], linked = True\<rparr> of
             (z, r) \<Rightarrow> (zip_close filename z, r)))"

definition write_input ::
  "input_set \<Rightarrow> path \<Rightarrow> bool \<Rightarrow> bool \<Rightarrow> bool \<Rightarrow> fs \<Rightarrow> fs \<times> error option" where
  "write_input self directory make_dir overwrite zip_inputs_flag fs =
     (let path = directory in
      case write_entries path make_dir overwrite (inputs self) fs of
        (fs1, Some e) \<Rightarrow> (fs1, Some e)
      | (fs1, None) \<Rightarrow>
          if zip_inputs_flag then zip_inputs_phase self path fs1 else (fs1, None))"

section \<open>Objects with identity: copying an InputSet\<close>

text \<open>
  Copying depends on which objects are shared, so here the objects live on a heap: a
  list of objects, the address of an object (Python's \<^verbatim>\<open>id\<close>) being its index. A value
  held in a field is \<^verbatim>\<open>None\<close>, a string (immutable, "atomic" for the copy module) or
  a reference to an object. An object is a \<^verbatim>\<open>dict\<close> with its items, an instance of an
  \<^verbatim>\<open>InputSet\<close> class with the entries of its \<^verbatim>\<open>__dict__\<close>, or an instance of another
  class (an \<^verbatim>\<open>InputFile\<close>, say) with the entries of its \<^verbatim>\<open>__dict__\<close>.
\<close>

datatype hval = HNone | HStr string | HRef nat

datatype kind = KDict | KInputSet string | KObject string

record hobj =
  kind :: kind
  entries :: "(string \<times> hval) list"

type_synonym heap = "hobj list"

text \<open>The state of a deep copy: the heap and the memo, from addresses of originals to copies.\<close>

record dstate =
  heap :: heap
  memo :: "nat \<Rightarrow> nat option"

text \<open>\<^verbatim>\<open>cls.__new__(cls)\<close> (or \<^verbatim>\<open>y = {}\<close>): a new object of the kind of \<open>x\<close>, without entries.\<close>

definition new_like :: "hobj \<Rightarrow> hobj" where
  "new_like x = \<lparr>kind = kind x, entries = []\<rparr>"

definition alloc :: "hobj \<Rightarrow> dstate \<Rightarrow> nat \<times> dstate" where
  "alloc x st = (length (heap st), st\<lparr>heap := heap st @ [x]\<rparr>)"

text \<open>\<^verbatim>\<open>setattr(new_instance, key, v)\<close>, and \<^verbatim>\<open>y[key] = v\<close> for a dict.\<close>

definition set_field :: "nat \<Rightarrow> string \<Rightarrow> hval \<Rightarrow> dstate \<Rightarrow> dstate" where
  "set_field y key v st =
     st\<lparr>heap := (heap st)[y := (heap st ! y)\<lparr>entries := AList.update key v (entries (heap st ! y))\<rparr>]\<rparr>"

text \<open>
  \<^verbatim>\<open>copy.deepcopy(x, memo)\<close> and the loop over the entries. \<^verbatim>\<open>deepcopy\<close> belongs to
  Python's standard library; for the kinds of object above it does the following. An
  atomic value is returned as it is. An object found in the memo is answered with its
  copy. For an \<^verbatim>\<open>InputSet\<close> it calls \<^verbatim>\<open>InputSet.__deepcopy__\<close>, which is the code of this
  module: the new instance is made, \<^verbatim>\<open>memo[id(self)] = new_instance\<close> is stored, and
  then every entry of \<^verbatim>\<open>self.__dict__\<close> is deep-copied with the same memo and set on
  the new instance. For a dict and for an instance of another class the library does
  the same three steps (new object, memo entry, entries copied one by one). The
  recursion is bounded by fuel; \<open>None\<close> is "fuel used up". (A reference is always
  the address of an object in Python; for one that is not, the model has no object to
  copy and answers \<open>None\<close> as well.)
\<close>

fun deepcopy :: "nat \<Rightarrow> hval \<Rightarrow> dstate \<Rightarrow> (hval \<times> dstate) option"
  and deepcopy_items :: "nat \<Rightarrow> nat \<Rightarrow> (string \<times> hval) list \<Rightarrow> dstate \<Rightarrow> dstate option" where
  "deepcopy 0 v st = None"
| "deepcopy (Suc n) HNone st = Some (HNone, st)"
| "deepcopy (Suc n) (HStr s) st = Some (HStr s, st)"
| "deepcopy (Suc n) (HRef a) st =
     (case memo st a of
        Some y \<Rightarrow> Some (HRef y, st)
      | None \<Rightarrow>
          if length (heap st) \<le> a then None
          else
            (let self = heap st ! a;
                 (new_instance, st1) = alloc (new_like self) st;
                 st2 = st1\<lparr>memo := (memo st1)(a \<mapsto> new_instance)\<rparr>
             in case deepcopy_items n new_instance (entries self) st2 of
                  None \<Rightarrow> None
                | Some st3 \<Rightarrow> Some (HRef new_instance, st3)))"
| "deepcopy_items n new_instance [] st = Some st"
| "deepcopy_items n new_instance ((key, val) # rest) st =
     (case deepcopy n val st of
        None \<Rightarrow> None
      | Some (v, st1) \<Rightarrow> deepcopy_items n new_instance rest (set_field new_instance key v st1))"

text \<open>
  \<^verbatim>\<open>copy.deepcopy(x)\<close> of the object at address \<open>a\<close>, with a fresh memo. No chain of
  nested calls is longer than the number of objects, which therefore is enough fuel.
\<close>

definition deepcopy_object :: "heap \<Rightarrow> nat \<Rightarrow> (hval \<times> dstate) option" where
  "deepcopy_object h a = deepcopy (Suc (length h)) (HRef a) \<lparr>heap = h, memo = Map.empty\<rparr>"

text \<open>
  A heap is well formed when the keys of every object are unique (they are the keys of
  a dict) and every reference is the address of an object of the heap.
\<close>

definition wf_val :: "nat \<Rightarrow> hval \<Rightarrow> bool" where
  "wf_val n v = (case v of HRef a \<Rightarrow> a < n | _ \<Rightarrow> True)"

definition wf_obj :: "nat \<Rightarrow> hobj \<Rightarrow> bool" where
  "wf_obj n x = (distinct (map fst (entries x)) \<and> list_all (wf_val n) (map snd (entries x)))"

definition wf_heap :: "heap \<Rightarrow> bool" where
  "wf_heap h = list_all (wf_obj (length h)) h"

text \<open>The copy of a value under a memo: a reference is replaced by the copy of its target.\<close>

definition copy_val :: "(nat \<Rightarrow> nat option) \<Rightarrow> hval \<Rightarrow> hval" where
  "copy_val m v = (case v of HRef a \<Rightarrow> (case m a of Some y \<Rightarrow> HRef y | None \<Rightarrow> v) | _ \<Rightarrow> v)"

text \<open>
  The invariant of a deep copy of the heap \<open>h0\<close>: the originals are untouched, the memo
  maps originals to objects allocated since, one to one and onto.
\<close>

definition dc_inv :: "heap \<Rightarrow> dstate \<Rightarrow> bool" where
  "dc_inv h0 st \<longleftrightarrow>
     length h0 \<le> length (heap st) \<and> take (length h0) (heap st) = h0
     \<and> (\<forall>b c. memo st b = Some c \<longrightarrow> b < length h0 \<and> length h0 \<le> c \<and> c < length (heap st))
     \<and> inj_on (memo st) (dom (memo st))
     \<and> (\<forall>c. length h0 \<le> c \<and> c < length (heap st) \<longrightarrow> (\<exists>b. memo st b = Some c))"

text \<open>The original at \<open>b\<close> has a finished copy: same kind, every entry copied under the memo.\<close>

definition dc_fin :: "heap \<Rightarrow> dstate \<Rightarrow> nat \<Rightarrow> bool" where
  "dc_fin h0 st b \<longleftrightarrow>
     (\<exists>c. memo st b = Some c \<and> kind (heap st ! c) = kind (h0 ! b)
        \<and> entries (heap st ! c) = map (\<lambda>(k, v). (k, copy_val (memo st) v)) (entries (h0 ! b))
        \<and> (\<forall>v \<in> snd ` set (entries (h0 ! b)). \<forall>d. v = HRef d \<longrightarrow> d \<in> dom (memo st)))"

definition unvisited :: "heap \<Rightarrow> dstate \<Rightarrow> nat" where
  "unvisited h0 st = length h0 - card (dom (memo st))"

text \<open>What a call of \<open>deepcopy\<close>, and of the loop over the entries, achieves.\<close>

definition dc_post :: "heap \<Rightarrow> hval \<Rightarrow> dstate \<Rightarrow> hval \<Rightarrow> dstate \<Rightarrow> bool" where
  "dc_post h0 v st v' st' \<longleftrightarrow>
     dc_inv h0 st' \<and> memo st \<subseteq>\<^sub>m memo st' \<and> length (heap st) \<le> length (heap st')
     \<and> (\<forall>c < length (heap st). heap st' ! c = heap st ! c)
     \<and> v' = copy_val (memo st') v
     \<and> (\<forall>d. v = HRef d \<longrightarrow> d \<in> dom (memo st'))
     \<and> (\<forall>b \<in> dom (memo st') - dom (memo st). dc_fin h0 st' b)"

definition dci_post :: "heap \<Rightarrow> nat \<Rightarrow> (string \<times> hval) list \<Rightarrow> dstate \<Rightarrow> dstate \<Rightarrow> bool" where
  "dci_post h0 y items st st' \<longleftrightarrow>
     dc_inv h0 st' \<and> memo st \<subseteq>\<^sub>m memo st' \<and> length (heap st) \<le> length (heap st')
     \<and> (\<forall>c < length (heap st). c \<noteq> y \<longrightarrow> heap st' ! c = heap st ! c)
     \<and> kind (heap st' ! y) = kind (heap st ! y)
     \<and> entries (heap st' ! y)
         = entries (heap st ! y) @ map (\<lambda>(k, v). (k, copy_val (memo st') v)) items
     \<and> (\<forall>v \<in> snd ` set items. \<forall>d. v = HRef d \<longrightarrow> d \<in> dom (memo st'))
     \<and> (\<forall>b \<in> dom (memo st') - dom (memo st). dc_fin h0 st' b)"

section \<open>Example instances\<close>

definition c8_example :: input_set where
  "c8_example = InputSet_init ''InputSet'' [] (Some [(''INCAR'', PStr ''a''), (''KPOINTS'', PStr ''b'')]) []"

definition c1_a :: input_set where
  "c1_a = InputSet_init ''InputSet'' [] (Some [(''x'', PStr ''1'')]) [(''foo'', PStr ''bar'')]"

definition c1_b :: input_set where
  "c1_b = InputSet_init ''InputSet'' [] (Some [(''x'', PStr ''2''), (''y'', PStr ''3'')]) []"

definition c7_other :: input_set where
  "c7_other = InputSet_init ''OtherSet'' [''Mapping''] (Some [(''x'', PStr ''2'')]) []"






definition c3_clash :: input_set where
  "c3_clash = InputSet_init ''InputSet'' [] (Some [(''InputSet.zip'', PStr ''text'')]) []"

definition c4_set :: input_set where
  "c4_set = InputSet_init ''InputSet'' [] (Some []) [(''foo'', PStr ''bar'')]"

definition c4_set_file :: input_set where
  "c4_set_file = InputSet_init ''InputSet'' [] (Some [(''foo'', PStr ''file text'')])
                   [(''foo'', PStr ''bar'')]"

text \<open>
  An InputSet that refers to itself (its attribute \<^verbatim>\<open>owner\<close>, also a named parameter)
  and holds one \<^verbatim>\<open>InputFile\<close> under two filenames; \<open>c6_copies\<close> is what a deep copy adds.
\<close>

definition c6_heap :: heap where
  "c6_heap =
     [\<lparr>kind = KInputSet ''InputSet'',
       entries = [(''inputs'', HRef 1), (''_kwargs'', HRef 2), (''owner'', HRef 0)]\<rparr>,
      \<lparr>kind = KDict, entries = [(''INCAR'', HRef 3), (''INCAR.bak'', HRef 3)]\<rparr>,
      \<lparr>kind = KDict, entries = [(''owner'', HRef 0)]\<rparr>,
      \<lparr>kind = KObject ''Incar'', entries = [(''text'', HStr ''ENCUT = 520'')]\<rparr>]"

definition c6_copies :: heap where
  "c6_copies =
     [\<lparr>kind = KInputSet ''InputSet'',
       entries = [(''inputs'', HRef 5), (''_kwargs'', HRef 7), (''owner'', HRef 4)]\<rparr>,
      \<lparr>kind = KDict, entries = [(''INCAR'', HRef 6), (''INCAR.bak'', HRef 6)]\<rparr>,
      \<lparr>kind = KObject ''Incar'', entries = [(''text'', HStr ''ENCUT = 520'')]\<rparr>,
      \<lparr>kind = KDict, entries = [(''owner'', HRef 4)]\<rparr>]"

section \<open>Dictionaries\<close>

lemma map_of_dict_setitem: "map_of (dict_setitem d k v) = (map_of d)(k \<mapsto> v)"
  by (simp add: dict_setitem_def update_conv')

lemma map_of_dict_update:
  "distinct (dict_keys other) \<Longrightarrow> map_of (dict_update d other) = map_of d ++ map_of other"
  unfolding dict_update_def
proof (induction other arbitrary: d)
  case Nil show ?case by simp
next
  case (Cons x xs)
  obtain k v where x: "x = (k, v)" by (cases x)
  have d: "distinct (dict_keys xs)" and nk: "map_of xs k = None"
    using Cons.prems by (auto simp: x dict_keys_def map_of_eq_None_iff)
  have "map_of (fold (\<lambda>(k, v) acc. dict_setitem acc k v) (x # xs) d)
        = (map_of d)(k \<mapsto> v) ++ map_of xs"
    by (simp only: x fold_simps prod.case Cons.IH[OF d] map_of_dict_setitem)
  also have "\<dots> = map_of d ++ map_of (x # xs)"
    using nk by (auto simp: x fun_eq_iff map_add_def split: option.splits)
  finally show ?case .
qed

lemma map_of_dict_display2:
  "distinct (dict_keys a) \<Longrightarrow> distinct (dict_keys b) \<Longrightarrow>
   map_of (dict_display2 a b) = map_of a ++ map_of b"
  by (simp add: dict_display2_def map_of_dict_update)

lemma keys_dict_setitem:
  "dict_keys (dict_setitem d k v) = (if k \<in> set (dict_keys d) then dict_keys d else dict_keys d @ [k])"
  by (simp add: dict_keys_def dict_setitem_def update_keys)

lemma keys_dict_update:
  "distinct (dict_keys other) \<Longrightarrow>
   dict_keys (dict_update d other) = dict_keys d @ filter (\<lambda>k. k \<notin> set (dict_keys d)) (dict_keys other)"
  unfolding dict_update_def
proof (induction other arbitrary: d)
  case Nil show ?case by (simp add: dict_keys_def)
next
  case (Cons x xs)
  obtain k v where x: "x = (k, v)" by (cases x)
  have d: "distinct (dict_keys xs)" and nk: "k \<notin> set (dict_keys xs)"
    using Cons.prems by (auto simp: x dict_keys_def)
  show ?case
  proof (cases "k \<in> set (dict_keys d)")
    case True
    then show ?thesis using Cons.IH[OF d, of "dict_setitem d k v"]
      by (simp add: x keys_dict_setitem) (simp add: dict_keys_def)
  next
    case False
    have "filter (\<lambda>ka. ka \<noteq> k \<and> ka \<notin> set (dict_keys d)) (dict_keys xs)
        = filter (\<lambda>k. k \<notin> set (dict_keys d)) (dict_keys xs)"
      using nk by (intro filter_cong) auto
    then show ?thesis using False Cons.IH[OF d, of "dict_setitem d k v"]
      by (simp add: x keys_dict_setitem) (simp add: dict_keys_def)
  qed
qed

lemma dict_update_Nil_id: "distinct (dict_keys a) \<Longrightarrow> dict_update [] a = a"
proof (induction a rule: rev_induct)
  case Nil show ?case by (simp add: dict_update_def)
next
  case (snoc x xs)
  obtain k v where x: "x = (k, v)" by (cases x)
  have d: "distinct (dict_keys xs)" and nk: "k \<notin> set (dict_keys xs)"
    using snoc.prems by (auto simp: x dict_keys_def)
  have "dict_update [] (xs @ [x]) = dict_setitem (dict_update [] xs) k v"
    by (simp add: dict_update_def x)
  also have "\<dots> = dict_setitem xs k v" using snoc.IH[OF d] by simp
  also have "\<dots> = xs @ [(k, v)]" using nk
    by (induction xs) (auto simp: dict_setitem_def dict_keys_def)
  finally show ?case by (simp add: x)
qed

lemma keys_delete: "dict_keys (AList.delete k d) = filter (\<lambda>x. x \<noteq> k) (dict_keys d)"
  by (induction d) (auto simp: dict_keys_def)

section \<open>The mapping protocol of InputSet\<close>

text \<open>
  Claim C8. For every InputSet \<open>c\<close>: its length is the number of keys of its
  filename-to-content mapping, iteration yields exactly the keys of the mapping in
  insertion order, and it is a mutable container: item get returns the content stored
  under a present key (and raises \<^verbatim>\<open>KeyError\<close> for an absent one), item set binds the
  key to the new content (in place for a present key, at the end for a new one) and
  leaves the other keys alone, item delete removes the key and nothing else.
\<close>

theorem C8_mutable_mapping:
  "InputSet_len c = length (dict_keys (inputs c))
   \<and> InputSet_iter c = dict_keys (inputs c)
   \<and> (map_of (inputs c) k = Some v \<longrightarrow> InputSet_getitem c k = Inr v)
   \<and> (k \<notin> set (InputSet_iter c) \<longrightarrow> InputSet_getitem c k = Inl (KeyError k))
   \<and> InputSet_getitem (InputSet_setitem c k w) k = Inr w
   \<and> (k' \<noteq> k \<longrightarrow> InputSet_getitem (InputSet_setitem c k w) k' = InputSet_getitem c k')
   \<and> InputSet_iter (InputSet_setitem c k w)
       = (if k \<in> set (InputSet_iter c) then InputSet_iter c else InputSet_iter c @ [k])
   \<and> (k \<in> set (InputSet_iter c) \<longrightarrow>
        (\<exists>c'. InputSet_delitem c k = Inr c'
              \<and> InputSet_iter c' = filter (\<lambda>x. x \<noteq> k) (InputSet_iter c)
              \<and> InputSet_getitem c' k = Inl (KeyError k)
              \<and> (k' \<noteq> k \<longrightarrow> InputSet_getitem c' k' = InputSet_getitem c k')))
   \<and> (k \<notin> set (InputSet_iter c) \<longrightarrow> InputSet_delitem c k = Inl (KeyError k))"
proof -
  have 1: "InputSet_len c = length (dict_keys (inputs c))"
    by (simp add: InputSet_len_def dict_keys_def)
  have 2: "InputSet_iter c = dict_keys (inputs c)"
    by (simp add: InputSet_iter_def)
  have 3: "map_of (inputs c) k = Some v \<longrightarrow> InputSet_getitem c k = Inr v"
    by (simp add: InputSet_getitem_def dict_getitem_def)
  have 4: "k \<notin> set (InputSet_iter c) \<longrightarrow> InputSet_getitem c k = Inl (KeyError k)"
  proof
    assume "k \<notin> set (InputSet_iter c)"
    then have "map_of (inputs c) k = None"
      by (simp add: InputSet_iter_def dict_keys_def map_of_eq_None_iff)
    then show "InputSet_getitem c k = Inl (KeyError k)"
      by (simp add: InputSet_getitem_def dict_getitem_def)
  qed
  have 5: "InputSet_getitem (InputSet_setitem c k w) k = Inr w"
    by (simp add: InputSet_getitem_def InputSet_setitem_def dict_getitem_def map_of_dict_setitem)
  have 6: "k' \<noteq> k \<longrightarrow> InputSet_getitem (InputSet_setitem c k w) k' = InputSet_getitem c k'"
    by (simp add: InputSet_getitem_def InputSet_setitem_def dict_getitem_def map_of_dict_setitem)
  have 7: "InputSet_iter (InputSet_setitem c k w)
       = (if k \<in> set (InputSet_iter c) then InputSet_iter c else InputSet_iter c @ [k])"
    by (simp add: InputSet_iter_def InputSet_setitem_def keys_dict_setitem)
  have 8: "k \<in> set (InputSet_iter c) \<longrightarrow>
        (\<exists>c'. InputSet_delitem c k = Inr c'
              \<and> InputSet_iter c' = filter (\<lambda>x. x \<noteq> k) (InputSet_iter c)
              \<and> InputSet_getitem c' k = Inl (KeyError k)
              \<and> (k' \<noteq> k \<longrightarrow> InputSet_getitem c' k' = InputSet_getitem c k'))"
    by (simp add: InputSet_iter_def InputSet_delitem_def dict_delitem_def keys_delete
        InputSet_getitem_def dict_getitem_def delete_conv')
  have 9: "k \<notin> set (InputSet_iter c) \<longrightarrow> InputSet_delitem c k = Inl (KeyError k)"
    by (simp add: InputSet_iter_def InputSet_delitem_def dict_delitem_def)
  from 1 2 3 4 5 6 7 8 9 show ?thesis by blast
qed

theorem C8_mutable_mapping_witness:
  "map_of (inputs c8_example) ''INCAR'' = Some (PStr ''a'')
   \<and> InputSet_getitem c8_example ''INCAR'' = Inr (PStr ''a'')
   \<and> ''INCAR'' \<in> set (InputSet_iter c8_example)
   \<and> ''KPOINTS'' \<noteq> ''INCAR''
   \<and> (\<exists>c'. InputSet_delitem c8_example ''INCAR'' = Inr c'
           \<and> InputSet_iter c' = filter (\<lambda>x. x \<noteq> ''INCAR'') (InputSet_iter c8_example)
           \<and> InputSet_getitem c' ''INCAR'' = Inl (KeyError ''INCAR'')
           \<and> InputSet_getitem c' ''KPOINTS'' = InputSet_getitem c8_example ''KPOINTS'')
   \<and> InputSet_getitem (InputSet_setitem c8_example ''INCAR'' (PStr ''z'')) ''KPOINTS''
       = InputSet_getitem c8_example ''KPOINTS''"
proof -
  have h1: "map_of (inputs c8_example) ''INCAR'' = Some (PStr ''a'')"
    by (simp add: c8_example_def InputSet_init_def)
  have h2: "''INCAR'' \<in> set (InputSet_iter c8_example)"
    by (simp add: c8_example_def InputSet_init_def InputSet_iter_def dict_keys_def)
  have h3: "''KPOINTS'' \<noteq> ''INCAR''" by simp
  from h1 h2 h3
    C8_mutable_mapping [of c8_example "''INCAR''" "PStr ''a''" "PStr ''z''" "''KPOINTS''"]
  show ?thesis by blast
qed

section \<open>The union operator\<close>

text \<open>
  Claim C1. For two InputSet instances \<open>a\<close> and \<open>b\<close> of the same concrete type,
  \<^verbatim>\<open>a | b\<close> returns a collection of that type whose file mapping is the entries of
  \<open>b\<close> laid over those of \<open>a\<close>: \<open>b\<close> wins on every common key, the keys of only one
  operand are kept (in the order: keys of \<open>a\<close>, then the new keys of \<open>b\<close>), and whose
  named parameters are exactly those of \<open>a\<close>. The operator is a function of the two
  operand values that returns the result and no updated operand: the source builds a
  fresh dict with \<^verbatim>\<open>{**self.inputs, **other.inputs}\<close>, passes it to a fresh instance
  and assigns to nothing else, so neither operand is changed. The keys of a Python
  dict are unique, which is the hypothesis on the two mappings.
\<close>

theorem C1_union:
  assumes same: "cls_name b = cls_name a"
    and da: "distinct (dict_keys (inputs a))"
    and db: "distinct (dict_keys (inputs b))"
  shows "\<exists>r. InputSet_or a (OSet b) = Result r
           \<and> map_of (inputs r) = map_of (inputs a) ++ map_of (inputs b)
           \<and> dict_keys (inputs r)
               = dict_keys (inputs a)
                 @ filter (\<lambda>k. k \<notin> set (dict_keys (inputs a))) (dict_keys (inputs b))
           \<and> kwargs r = kwargs a
           \<and> cls_name r = cls_name a \<and> cls_bases r = cls_bases a"
proof -
  let ?m = "dict_display2 (inputs a) (inputs b)"
  let ?r = "InputSet_init (cls_name a) (cls_bases a) (Some ?m) (kwargs a)"
  have inst: "isinstance b (cls_name a)"
    using same by (simp add: isinstance_def)
  have res: "InputSet_or a (OSet b) = Result ?r"
    using inst by (simp add: InputSet_or_def)
  have inp: "inputs ?r = ?m"
    by (simp add: InputSet_init_def)
  have m: "map_of ?m = map_of (inputs a) ++ map_of (inputs b)"
    using da db by (rule map_of_dict_display2)
  have k: "dict_keys ?m = dict_keys (inputs a)
                 @ filter (\<lambda>k. k \<notin> set (dict_keys (inputs a))) (dict_keys (inputs b))"
    using da db by (simp add: dict_display2_def dict_update_Nil_id keys_dict_update)
  have rest: "kwargs ?r = kwargs a \<and> cls_name ?r = cls_name a \<and> cls_bases ?r = cls_bases a"
    by (simp add: InputSet_init_def)
  from res inp m k rest show ?thesis by simp
qed

theorem C1_union_witness:
  "cls_name c1_b = cls_name c1_a
   \<and> distinct (dict_keys (inputs c1_a)) \<and> distinct (dict_keys (inputs c1_b))
   \<and> (\<exists>r. InputSet_or c1_a (OSet c1_b) = Result r
          \<and> map_of (inputs r) = map_of (inputs c1_a) ++ map_of (inputs c1_b)
          \<and> dict_keys (inputs r) = [''x'', ''y'']
          \<and> kwargs r = [(''foo'', PStr ''bar'')])"
proof -
  have h1: "cls_name c1_b = cls_name c1_a"
    by (simp add: c1_a_def c1_b_def InputSet_init_def)
  have h2: "distinct (dict_keys (inputs c1_a))"
    by (simp add: c1_a_def InputSet_init_def dict_keys_def)
  have h3: "distinct (dict_keys (inputs c1_b))"
    by (simp add: c1_b_def InputSet_init_def dict_keys_def)
  have k: "dict_keys (inputs c1_a)
           @ filter (\<lambda>k. k \<notin> set (dict_keys (inputs c1_a))) (dict_keys (inputs c1_b))
           = [''x'', ''y'']"
    by (simp add: c1_a_def c1_b_def InputSet_init_def dict_keys_def)
  have kw: "kwargs c1_a = [(''foo'', PStr ''bar'')]"
    by (simp add: c1_a_def InputSet_init_def)
  from C1_union [OF h1 h2 h3] h1 h2 h3 k kw show ?thesis by auto
qed

text \<open>The example of the specification: \<^verbatim>\<open>{"x": "1"} | {"x": "2", "y": "3"}\<close>.\<close>

lemma c1_example_value:
  "InputSet_or c1_a (OSet c1_b)
   = Result \<lparr>cls_name = ''InputSet'', cls_bases = [],
             inputs = [(''x'', PStr ''2''), (''y'', PStr ''3'')],
             kwargs = [(''foo'', PStr ''bar'')], attrs = [(''foo'', PStr ''bar'')]\<rparr>"
  by (simp add: c1_a_def c1_b_def InputSet_init_def InputSet_or_def isinstance_def
      dict_display2_def dict_update_def dict_setitem_def)

text \<open>
  Claim C7. A right-hand operand that is a plain dict is first made into a collection
  of the left operand's concrete type (with no named parameters) and then merged as
  such; an operand that is neither a dict nor an instance of the left operand's type
  makes the operator return the sentinel \<^verbatim>\<open>NotImplemented\<close> instead of raising.
\<close>

theorem C7_union_operand:
  "InputSet_or a (ODict d)
     = InputSet_or a (OSet (InputSet_init (cls_name a) (cls_bases a) (Some d) []))
   \<and> (\<exists>r. InputSet_or a (ODict d) = Result r \<and> cls_name r = cls_name a
          \<and> inputs r = dict_display2 (inputs a) d \<and> kwargs r = kwargs a)
   \<and> (distinct (dict_keys (inputs a)) \<and> distinct (dict_keys d) \<longrightarrow>
        map_of (dict_display2 (inputs a) d) = map_of (inputs a) ++ map_of d)
   \<and> InputSet_or a (OOther v) = NotImplemented
   \<and> (\<not> isinstance b (cls_name a) \<longrightarrow> InputSet_or a (OSet b) = NotImplemented)"
proof -
  have 1: "InputSet_or a (ODict d)
     = InputSet_or a (OSet (InputSet_init (cls_name a) (cls_bases a) (Some d) []))"
    by (simp add: InputSet_or_def)
  have 2: "\<exists>r. InputSet_or a (ODict d) = Result r \<and> cls_name r = cls_name a
          \<and> inputs r = dict_display2 (inputs a) d \<and> kwargs r = kwargs a"
    by (simp add: InputSet_or_def InputSet_init_def isinstance_def)
  have 3: "distinct (dict_keys (inputs a)) \<and> distinct (dict_keys d) \<longrightarrow>
        map_of (dict_display2 (inputs a) d) = map_of (inputs a) ++ map_of d"
    by (simp add: map_of_dict_display2)
  have 4: "InputSet_or a (OOther v) = NotImplemented"
    by (simp add: InputSet_or_def)
  have 5: "\<not> isinstance b (cls_name a) \<longrightarrow> InputSet_or a (OSet b) = NotImplemented"
    by (simp add: InputSet_or_def)
  from 1 2 3 4 5 show ?thesis by blast
qed

theorem C7_union_operand_witness:
  "distinct (dict_keys (inputs c1_a)) \<and> distinct (dict_keys [(''x'', PStr ''2''), (''y'', PStr ''3'')])
   \<and> map_of (dict_display2 (inputs c1_a) [(''x'', PStr ''2''), (''y'', PStr ''3'')])
       = map_of (inputs c1_a) ++ map_of [(''x'', PStr ''2''), (''y'', PStr ''3'')]
   \<and> \<not> isinstance c7_other (cls_name c1_a)
   \<and> InputSet_or c1_a (OSet c7_other) = NotImplemented"
proof -
  have h1: "distinct (dict_keys (inputs c1_a)) \<and> distinct (dict_keys [(''x'', PStr ''2''), (''y'', PStr ''3'')])"
    by (simp add: c1_a_def InputSet_init_def dict_keys_def)
  have h2: "\<not> isinstance c7_other (cls_name c1_a)"
    by (simp add: c1_a_def c7_other_def InputSet_init_def isinstance_def)
  from h1 h2
    C7_union_operand [of c1_a "[(''x'', PStr ''2''), (''y'', PStr ''3'')]" PNone c7_other]
  show ?thesis by blast
qed

section \<open>Operations left to the subclasses\<close>

text \<open>
  Claim C5. The base implementations of \<^verbatim>\<open>InputFile.from_str\<close>,
  \<^verbatim>\<open>InputSet.from_directory\<close>, \<^verbatim>\<open>InputSet.validate\<close> and
  \<^verbatim>\<open>InputGenerator.get_input_set\<close> each raise \<^verbatim>\<open>NotImplementedError\<close> with a message
  that ends in the name of the calling concrete type, whatever the arguments; in
  particular \<^verbatim>\<open>validate\<close> never answers that the set is valid.
\<close>

theorem C5_base_not_implemented:
  "from_str cls contents
     = Inl (NotImplementedError (''from_str has not been implemented in '' @ cls))
   \<and> from_directory cls directory
     = Inl (NotImplementedError (''from_directory has not been implemented in '' @ cls))
   \<and> validate s
     = Inl (NotImplementedError (''.validate() has not been implemented in '' @ cls_name s))
   \<and> get_input_set g args kw
     = Inl (NotImplementedError (''get_input_set has not been implemented in '' @ gen_cls g))
   \<and> validate s \<noteq> Inr True"
  by (simp add: from_str_def from_directory_def validate_def get_input_set_def)

section \<open>InputFile: string form and writing\<close>



section \<open>Writing an InputSet\<close>

text \<open>
  Claim C10. For an InputSet with an empty mapping, \<^verbatim>\<open>write_input\<close> without zipping
  writes nothing and does not create the directory, also when \<^verbatim>\<open>make_dir\<close> is true and
  the directory is missing: the directory is only created inside the loop over the
  entries. The file system is left as it was and no exception is raised.
\<close>

theorem C10_empty_write:
  "inputs s = [] \<Longrightarrow> write_input s directory make_dir overwrite False fs = (fs, None)"
  by (simp add: write_input_def)

theorem C10_empty_write_witness:
  "inputs (InputSet_init ''InputSet'' [] None []) = []
   \<and> write_input (InputSet_init ''InputSet'' [] None []) [''new_dir''] True True False Map.empty
       = (Map.empty, None)
   \<and> \<not> exists Map.empty [''new_dir'']"
proof -
  have h: "inputs (InputSet_init ''InputSet'' [] None []) = []"
    by (simp add: InputSet_init_def)
  from h C10_empty_write [OF h, of "[''new_dir'']" True True Map.empty]
  show ?thesis by (simp add: exists_def node_at_def)
qed

subsection \<open>What the loop over the entries leaves alone\<close>













subsection \<open>Writing and archiving\<close>










lemma c3_truediv:
  "truediv [''run''] ''INCAR'' = [''run'', ''INCAR'']"
  "truediv [''run''] ''KPOINTS'' = [''run'', ''KPOINTS'']"
  "truediv [''run''] ''InputSet.zip'' = [''run'', ''InputSet.zip'']"
  "truediv [''missing''] ''INCAR'' = [''missing'', ''INCAR'']"
  "truediv [''new_dir''] ''InputSet.zip'' = [''new_dir'', ''InputSet.zip'']"
  by (simp_all add: truediv_def Path_def is_absolute_def)




text \<open>
  An entry named like the archive is outside the amended claim: the archive loop adds
  the (just truncated) archive to itself and then removes it from the directory.
\<close>

lemma zip_name_clash_example:
  "write_input c3_clash [''run''] True True True Map.empty = ([[''run''] \<mapsto> Dir], None)"
  by (simp add: write_input_def c3_clash_def InputSet_init_def write_entry_def
      c3_truediv exists_def node_at_def mkdir_def touch_def open_w_check_def parent_def
      zopen_write_def zip_inputs_phase_def dict_keys_def zip_entry_def zip_close_def
      arcname_def is_absolute_def fun_eq_iff)

section \<open>Attribute access\<close>

text \<open>
  On an instance as \<^verbatim>\<open>__init__\<close> leaves it, a named parameter is found in the instance
  dictionary, and a name that is neither there nor a named parameter raises
  \<^verbatim>\<open>AttributeError\<close> with the name of the concrete type.
\<close>

lemma getattr_parameter:
  assumes "distinct (dict_keys kw)" "map_of kw key = Some v"
    "key \<noteq> ''inputs''" "key \<noteq> ''_kwargs''"
  shows "getattr (InputSet_init c bs inp kw) key = Inr (AValue v)"
  using assms
  by (simp add: getattr_def instance_dict_def InputSet_init_def map_of_dict_update)

lemma getattr_unknown:
  assumes "key \<notin> set (dict_keys kw)" "key \<noteq> ''inputs''" "key \<noteq> ''_kwargs''"
    "distinct (dict_keys kw)"
  shows "getattr (InputSet_init c bs inp kw) key = Inl (AttributeError c key)"
proof -
  have "map_of kw key = None"
    using assms(1) by (simp add: dict_keys_def map_of_eq_None_iff)
  then show ?thesis using assms
    by (simp add: getattr_def instance_dict_def InputSet_init_def map_of_dict_update
        InputSet_getattr_def)
qed

text \<open>
  The fallback itself tests the name against the named parameters but then returns
  \<^verbatim>\<open>self.get(key)\<close>, which reads the file mapping: the result is the content stored
  under that filename, or \<^verbatim>\<open>None\<close>.
\<close>

lemma getattr_fallback_value:
  "key \<in> set (dict_keys (kwargs s)) \<Longrightarrow>
   InputSet_getattr s key = Inr (case map_of (inputs s) key of None \<Rightarrow> PNone | Some v \<Rightarrow> v)"
  by (simp add: InputSet_getattr_def InputSet_get_def InputSet_getitem_def dict_getitem_def
      split: option.splits)

text \<open>
  Claim C4 says that the fallback \<^verbatim>\<open>__getattr__\<close> returns the value of the stored
  parameter whenever the name is among the stored parameters. The code does not: for
  \<^verbatim>\<open>InputSet({}, foo="bar")\<close> the parameter \<^verbatim>\<open>foo\<close> is stored with the value
  \<^verbatim>\<open>"bar"\<close>, and \<^verbatim>\<open>__getattr__("foo")\<close> returns \<^verbatim>\<open>None\<close>; with a file called
  \<^verbatim>\<open>foo\<close> in the set it returns the content of that file.
\<close>

theorem C4_getattr_fallback:
  "map_of (kwargs c4_set) ''foo'' = Some (PStr ''bar'')
   \<and> InputSet_getattr c4_set ''foo'' = Inr PNone
   \<and> map_of (kwargs c4_set_file) ''foo'' = Some (PStr ''bar'')
   \<and> InputSet_getattr c4_set_file ''foo'' = Inr (PStr ''file text'')"
  by (simp add: c4_set_def c4_set_file_def InputSet_init_def InputSet_getattr_def dict_keys_def
      InputSet_get_def InputSet_getitem_def dict_getitem_def)

section \<open>Deep copy\<close>

lemma copy_val_mono:
  "m \<subseteq>\<^sub>m m' \<Longrightarrow> (\<forall>d. v = HRef d \<longrightarrow> d \<in> dom m) \<Longrightarrow> copy_val m' v = copy_val m v"
  by (cases v) (auto simp: copy_val_def map_le_def dom_def split: option.splits)

lemma dc_inv_dom: "dc_inv h0 st \<Longrightarrow> dom (memo st) \<subseteq> {..<length h0}"
  by (auto simp: dc_inv_def)

lemma unvisited_mono:
  assumes "dc_inv h0 st'" "memo st \<subseteq>\<^sub>m memo st'"
  shows "unvisited h0 st' \<le> unvisited h0 st"
proof -
  have "dom (memo st) \<subseteq> dom (memo st')" using assms(2) by (rule map_le_implies_dom_le)
  moreover have "finite (dom (memo st'))"
    using dc_inv_dom[OF assms(1)] by (rule finite_subset) simp
  ultimately have "card (dom (memo st)) \<le> card (dom (memo st'))" by (simp add: card_mono)
  then show ?thesis by (simp add: unvisited_def)
qed

lemma unvisited_new:
  assumes inv: "dc_inv h0 st" and a: "a < length h0" and n: "memo st a = None"
    and m: "memo st1 = (memo st)(a \<mapsto> y)"
  shows "Suc (unvisited h0 st1) = unvisited h0 st"
proof -
  have sub: "dom (memo st) \<subseteq> {..<length h0} - {a}"
    using dc_inv_dom[OF inv] n by auto
  have fin: "finite (dom (memo st))" using sub by (rule finite_subset) simp
  have "card (dom (memo st)) \<le> card ({..<length h0} - {a})"
    using sub by (intro card_mono) simp_all
  also have "\<dots> = length h0 - 1" using a by simp
  finally have lt: "card (dom (memo st)) < length h0" using a by simp
  have "card (dom (memo st1)) = Suc (card (dom (memo st)))"
    using fin n by (simp add: m dom_def[symmetric] domIff)
  with lt show ?thesis by (simp add: unvisited_def)
qed

lemma dc_fin_mono:
  assumes f: "dc_fin h0 st b" and le: "memo st \<subseteq>\<^sub>m memo st'"
    and same: "\<And>c. memo st b = Some c \<Longrightarrow> heap st' ! c = heap st ! c"
  shows "dc_fin h0 st' b"
proof -
  from f obtain c where c: "memo st b = Some c" "kind (heap st ! c) = kind (h0 ! b)"
    "entries (heap st ! c) = map (\<lambda>(k, v). (k, copy_val (memo st) v)) (entries (h0 ! b))"
    "\<forall>v \<in> snd ` set (entries (h0 ! b)). \<forall>d. v = HRef d \<longrightarrow> d \<in> dom (memo st)"
    unfolding dc_fin_def by blast
  have c': "memo st' b = Some c" using le c(1) by (auto simp: map_le_def dom_def)
  have dsub: "dom (memo st) \<subseteq> dom (memo st')" using le by (rule map_le_implies_dom_le)
  have "map (\<lambda>(k, v). (k, copy_val (memo st) v)) (entries (h0 ! b))
      = map (\<lambda>(k, v). (k, copy_val (memo st') v)) (entries (h0 ! b))"
  proof (rule map_cong[OF refl])
    fix x assume x: "x \<in> set (entries (h0 ! b))"
    obtain k v where kv: "x = (k, v)" by (cases x)
    have "v \<in> snd ` set (entries (h0 ! b))" using x kv by force
    then have "\<forall>d. v = HRef d \<longrightarrow> d \<in> dom (memo st)" using c(4) by blast
    then have "copy_val (memo st') v = copy_val (memo st) v" using le by (intro copy_val_mono)
    then show "(case x of (k, v) \<Rightarrow> (k, copy_val (memo st) v))
             = (case x of (k, v) \<Rightarrow> (k, copy_val (memo st') v))"
      by (simp add: kv)
  qed
  then have e: "entries (heap st' ! c)
      = map (\<lambda>(k, v). (k, copy_val (memo st') v)) (entries (h0 ! b))"
    using c(3) same[OF c(1)] by simp
  have k: "kind (heap st' ! c) = kind (h0 ! b)" using c(2) same[OF c(1)] by simp
  have d: "\<forall>v \<in> snd ` set (entries (h0 ! b)). \<forall>d. v = HRef d \<longrightarrow> d \<in> dom (memo st')"
    using c(4) dsub by blast
  show ?thesis unfolding dc_fin_def using c' k e d by blast
qed


lemma set_field_simps:
  "memo (set_field y k v st) = memo st"
  "length (heap (set_field y k v st)) = length (heap st)"
  "c \<noteq> y \<Longrightarrow> heap (set_field y k v st) ! c = heap st ! c"
  "y < length (heap st) \<Longrightarrow> kind (heap (set_field y k v st) ! y) = kind (heap st ! y)"
  "y < length (heap st) \<Longrightarrow>
     entries (heap (set_field y k v st) ! y) = AList.update k v (entries (heap st ! y))"
  by (simp_all add: set_field_def)

lemma update_fresh_key: "k \<notin> fst ` set al \<Longrightarrow> AList.update k v al = al @ [(k, v)]"
  by (induction al) auto

lemma dc_inv_set_field:
  assumes "dc_inv h0 st" "length h0 \<le> y"
  shows "dc_inv h0 (set_field y k v st)"
proof -
  have "take (length h0) (heap (set_field y k v st)) = take (length h0) (heap st)"
    using assms(2) by (simp add: set_field_def)
  then show ?thesis using assms(1) by (simp add: dc_inv_def set_field_simps)
qed

lemma dc_post_refl:
  assumes "dc_inv h0 st" "\<forall>d. v = HRef d \<longrightarrow> d \<in> dom (memo st)"
  shows "dc_post h0 v st (copy_val (memo st) v) st"
  using assms by (simp add: dc_post_def)

lemma dci_post_Nil: "dc_inv h0 st \<Longrightarrow> dci_post h0 y [] st st"
  by (simp add: dci_post_def)

lemma dci_step:
  assumes P: "\<And>v st. dc_inv h0 st \<Longrightarrow> wf_val (length h0) v \<Longrightarrow> unvisited h0 st < n \<Longrightarrow>
                \<exists>v' st'. deepcopy n v st = Some (v', st') \<and> dc_post h0 v st v' st'"
  shows "dc_inv h0 st \<Longrightarrow> length h0 \<le> y \<Longrightarrow> y < length (heap st) \<Longrightarrow>
         list_all (wf_val (length h0)) (map snd items) \<Longrightarrow> distinct (map fst items) \<Longrightarrow>
         set (map fst items) \<inter> fst ` set (entries (heap st ! y)) = {} \<Longrightarrow>
         unvisited h0 st < n \<Longrightarrow>
         \<exists>st'. deepcopy_items n y items st = Some st' \<and> dci_post h0 y items st st'"
proof (induction items arbitrary: st)
  case Nil
  then show ?case by (simp add: dci_post_Nil)
next
  case (Cons x rest)
  obtain k v where x: "x = (k, v)" by (cases x)
  have wfv: "wf_val (length h0) v" using Cons.prems(4) by (simp add: x)
  from P[OF Cons.prems(1) wfv Cons.prems(7)] obtain v' st1 where
    d1: "deepcopy n v st = Some (v', st1)" and p1: "dc_post h0 v st v' st1" by blast
  have inv1: "dc_inv h0 st1" and le1: "memo st \<subseteq>\<^sub>m memo st1"
    and len1: "length (heap st) \<le> length (heap st1)"
    and fr1: "\<And>c. c < length (heap st) \<Longrightarrow> heap st1 ! c = heap st ! c"
    and v': "v' = copy_val (memo st1) v"
    and rf1: "\<forall>d. v = HRef d \<longrightarrow> d \<in> dom (memo st1)"
    and fin1: "\<And>b. b \<in> dom (memo st1) - dom (memo st) \<Longrightarrow> dc_fin h0 st1 b"
    using p1 unfolding dc_post_def by blast+
  define st2 where "st2 = set_field y k v' st1"
  have y1: "y < length (heap st1)" using Cons.prems(3) len1 by simp
  have knew: "k \<notin> fst ` set (entries (heap st ! y))" using Cons.prems(6) by (auto simp: x)
  have m2: "memo st2 = memo st1" by (simp add: st2_def set_field_simps)
  have len2: "length (heap st2) = length (heap st1)" by (simp add: st2_def set_field_simps)
  have fr2: "\<And>c. c \<noteq> y \<Longrightarrow> heap st2 ! c = heap st1 ! c" by (simp add: st2_def set_field_simps)
  have k2: "kind (heap st2 ! y) = kind (heap st ! y)"
    using y1 fr1[OF Cons.prems(3)] by (simp add: st2_def set_field_simps)
  have e2: "entries (heap st2 ! y) = entries (heap st ! y) @ [(k, v')]"
    using y1 fr1[OF Cons.prems(3)] knew by (simp add: st2_def set_field_simps update_fresh_key)
  have inv2: "dc_inv h0 st2" unfolding st2_def using inv1 Cons.prems(2) by (rule dc_inv_set_field)
  have u2: "unvisited h0 st2 < n"
    using unvisited_mono[OF inv1 le1] Cons.prems(7) by (simp add: unvisited_def m2)
  have disj2: "set (map fst rest) \<inter> fst ` set (entries (heap st2 ! y)) = {}"
    using Cons.prems(5,6) by (auto simp: x e2)
  have "\<exists>st'. deepcopy_items n y rest st2 = Some st' \<and> dci_post h0 y rest st2 st'"
  proof (rule Cons.IH[OF inv2 Cons.prems(2) _ _ _ disj2 u2])
    show "y < length (heap st2)" using y1 len2 by simp
    show "list_all (wf_val (length h0)) (map snd rest)" using Cons.prems(4) by simp
    show "distinct (map fst rest)" using Cons.prems(5) by simp
  qed
  then obtain st' where d': "deepcopy_items n y rest st2 = Some st'"
    and p': "dci_post h0 y rest st2 st'" by blast
  have inv': "dc_inv h0 st'" and le': "memo st2 \<subseteq>\<^sub>m memo st'"
    and len': "length (heap st2) \<le> length (heap st')"
    and fr': "\<And>c. c < length (heap st2) \<Longrightarrow> c \<noteq> y \<Longrightarrow> heap st' ! c = heap st2 ! c"
    and k': "kind (heap st' ! y) = kind (heap st2 ! y)"
    and e': "entries (heap st' ! y)
         = entries (heap st2 ! y) @ map (\<lambda>(k, v). (k, copy_val (memo st') v)) rest"
    and rf': "\<forall>v \<in> snd ` set rest. \<forall>d. v = HRef d \<longrightarrow> d \<in> dom (memo st')"
    and fin': "\<And>b. b \<in> dom (memo st') - dom (memo st2) \<Longrightarrow> dc_fin h0 st' b"
    using p' unfolding dci_post_def by blast+
  have le1': "memo st1 \<subseteq>\<^sub>m memo st'" using le' by (simp add: m2)
  have res: "deepcopy_items n y (x # rest) st = Some st'"
    using d1 d' by (simp add: x st2_def)
  have a1: "memo st \<subseteq>\<^sub>m memo st'" using le1 le1' by (rule map_le_trans)
  have a2: "length (heap st) \<le> length (heap st')" using len1 len2 len' by simp
  have a3: "\<forall>c < length (heap st). c \<noteq> y \<longrightarrow> heap st' ! c = heap st ! c"
  proof (intro allI impI)
    fix c assume c: "c < length (heap st)" "c \<noteq> y"
    then have "c < length (heap st2)" using len1 len2 by simp
    then have "heap st' ! c = heap st2 ! c" using c(2) by (rule fr')
    also have "\<dots> = heap st1 ! c" using c(2) by (rule fr2)
    also have "\<dots> = heap st ! c" using c(1) by (rule fr1)
    finally show "heap st' ! c = heap st ! c" .
  qed
  have a4: "kind (heap st' ! y) = kind (heap st ! y)" using k' k2 by simp
  have cv: "v' = copy_val (memo st') v"
    using copy_val_mono[OF le1' rf1] v' by simp
  have a5: "entries (heap st' ! y)
         = entries (heap st ! y) @ map (\<lambda>(k, v). (k, copy_val (memo st') v)) (x # rest)"
    using e' e2 cv by (simp add: x)
  have a6: "\<forall>w \<in> snd ` set (x # rest). \<forall>d. w = HRef d \<longrightarrow> d \<in> dom (memo st')"
  proof -
    have "dom (memo st1) \<subseteq> dom (memo st')" using le1' by (rule map_le_implies_dom_le)
    then have "\<forall>d. v = HRef d \<longrightarrow> d \<in> dom (memo st')" using rf1 by blast
    then show ?thesis using rf' by (simp add: x)
  qed
  have a7: "\<forall>b \<in> dom (memo st') - dom (memo st). dc_fin h0 st' b"
  proof
    fix b assume b: "b \<in> dom (memo st') - dom (memo st)"
    show "dc_fin h0 st' b"
    proof (cases "b \<in> dom (memo st1)")
      case False
      then show ?thesis using b fin' by (simp add: m2)
    next
      case True
      then have f1: "dc_fin h0 st1 b" using b fin1 by simp
      show ?thesis
      proof (rule dc_fin_mono[OF f1 le1'])
        fix c assume c: "memo st1 b = Some c"
        have clt: "c < length (heap st1)" using inv1 c unfolding dc_inv_def by blast
        obtain a0 where a0: "memo st a0 = Some y"
          using Cons.prems(1,2,3) unfolding dc_inv_def by blast
        then have a01: "memo st1 a0 = Some y" using le1 by (auto simp: map_le_def dom_def)
        have "b \<noteq> a0" using b a0 by auto
        moreover have "inj_on (memo st1) (dom (memo st1))" using inv1 unfolding dc_inv_def by blast
        ultimately have "c \<noteq> y" using c a01 by (auto simp: inj_on_def dom_def)
        have "heap st' ! c = heap st2 ! c" using clt len2 \<open>c \<noteq> y\<close> by (intro fr') simp_all
        also have "\<dots> = heap st1 ! c" using \<open>c \<noteq> y\<close> by (rule fr2)
        finally show "heap st' ! c = heap st1 ! c" .
      qed
    qed
  qed
  have "dci_post h0 y (x # rest) st st'"
    unfolding dci_post_def using inv' a1 a2 a3 a4 a5 a6 a7 by blast
  with res show ?case by blast
qed


lemma dc_inv_alloc:
  assumes inv: "dc_inv h0 st" and a: "a < length h0" and n: "memo st a = None"
    and h1: "heap st1 = heap st @ [x]" and m1: "memo st1 = (memo st)(a \<mapsto> length (heap st))"
  shows "dc_inv h0 st1"
proof -
  let ?y = "length (heap st)"
  from inv have i1: "length h0 \<le> length (heap st)" "take (length h0) (heap st) = h0"
    and i2: "\<And>b c. memo st b = Some c \<Longrightarrow> b < length h0 \<and> length h0 \<le> c \<and> c < length (heap st)"
    and i3: "inj_on (memo st) (dom (memo st))"
    and i4: "\<And>c. length h0 \<le> c \<Longrightarrow> c < length (heap st) \<Longrightarrow> \<exists>b. memo st b = Some c"
    unfolding dc_inv_def by blast+
  have 1: "length h0 \<le> length (heap st1) \<and> take (length h0) (heap st1) = h0"
    using i1 by (simp add: h1)
  have 2: "\<forall>b c. memo st1 b = Some c \<longrightarrow>
             b < length h0 \<and> length h0 \<le> c \<and> c < length (heap st1)"
  proof (intro allI impI)
    fix b c assume bc: "memo st1 b = Some c"
    show "b < length h0 \<and> length h0 \<le> c \<and> c < length (heap st1)"
    proof (cases "b = a")
      case True
      then show ?thesis using bc a i1 by (simp add: m1 h1)
    next
      case False
      then have "memo st b = Some c" using bc by (simp add: m1)
      from i2[OF this] show ?thesis by (simp add: h1)
    qed
  qed
  have 3: "inj_on (memo st1) (dom (memo st1))"
  proof (rule inj_onI)
    fix p q assume p: "p \<in> dom (memo st1)" and q: "q \<in> dom (memo st1)"
      and eq: "memo st1 p = memo st1 q"
    have fresh: "memo st b \<noteq> Some ?y" for b using i2[of b ?y] by auto
    show "p = q"
    proof (cases "p = a")
      case True
      then have "memo st1 q = Some ?y" using eq by (simp add: m1)
      then show ?thesis using True fresh[of q] by (cases "q = a") (simp_all add: m1)
    next
      case pa: False
      show ?thesis
      proof (cases "q = a")
        case True
        then have "memo st1 p = Some ?y" using eq by (simp add: m1)
        then show ?thesis using pa fresh[of p] by (simp add: m1)
      next
        case False
        then have "memo st p = memo st q" "p \<in> dom (memo st)" "q \<in> dom (memo st)"
          using pa p q eq by (simp_all add: m1)
        then show ?thesis using i3 by (auto simp: inj_on_def)
      qed
    qed
  qed
  have 4: "\<forall>c. length h0 \<le> c \<and> c < length (heap st1) \<longrightarrow> (\<exists>b. memo st1 b = Some c)"
  proof (intro allI impI)
    fix c assume c: "length h0 \<le> c \<and> c < length (heap st1)"
    show "\<exists>b. memo st1 b = Some c"
    proof (cases "c = ?y")
      case True
      then show ?thesis by (auto simp: m1)
    next
      case False
      then have "c < length (heap st)" using c by (simp add: h1)
      with c i4 obtain b where b: "memo st b = Some c" by blast
      then have "b \<noteq> a" using n by auto
      then show ?thesis using b by (auto simp: m1)
    qed
  qed
  from 1 2 3 4 show ?thesis unfolding dc_inv_def by blast
qed

lemma dc_step:
  assumes Q: "\<And>y items st. dc_inv h0 st \<Longrightarrow> length h0 \<le> y \<Longrightarrow> y < length (heap st) \<Longrightarrow>
         list_all (wf_val (length h0)) (map snd items) \<Longrightarrow> distinct (map fst items) \<Longrightarrow>
         set (map fst items) \<inter> fst ` set (entries (heap st ! y)) = {} \<Longrightarrow>
         unvisited h0 st < n \<Longrightarrow>
         \<exists>st'. deepcopy_items n y items st = Some st' \<and> dci_post h0 y items st st'"
    and wf: "wf_heap h0"
    and inv: "dc_inv h0 st" and wfv: "wf_val (length h0) v" and u: "unvisited h0 st < Suc n"
  shows "\<exists>v' st'. deepcopy (Suc n) v st = Some (v', st') \<and> dc_post h0 v st v' st'"
proof (cases v)
  case HNone
  then show ?thesis using dc_post_refl[OF inv, of v] by (simp add: copy_val_def)
next
  case (HStr s)
  then show ?thesis using dc_post_refl[OF inv, of v] by (simp add: copy_val_def)
next
  case (HRef a)
  have a: "a < length h0" using wfv HRef by (simp add: wf_val_def)
  show ?thesis
  proof (cases "memo st a")
    case (Some y)
    have "dc_post h0 v st (copy_val (memo st) v) st"
      using Some HRef by (intro dc_post_refl[OF inv]) auto
    then show ?thesis using Some HRef by (simp add: copy_val_def)
  next
    case None
    let ?y = "length (heap st)"
    let ?self = "heap st ! a"
    define st2 where "st2 = st\<lparr>heap := heap st @ [new_like ?self], memo := (memo st)(a \<mapsto> ?y)\<rparr>"
    have h2: "heap st2 = heap st @ [new_like ?self]" and m2: "memo st2 = (memo st)(a \<mapsto> ?y)"
      by (simp_all add: st2_def)
    have self: "?self = h0 ! a"
    proof -
      have "take (length h0) (heap st) ! a = heap st ! a" using a by simp
      then show ?thesis using inv unfolding dc_inv_def by simp
    qed
    have inv2: "dc_inv h0 st2" using inv a None h2 m2 by (rule dc_inv_alloc)
    have wfo: "wf_obj (length h0) (h0 ! a)"
      using wf a by (simp add: wf_heap_def list_all_length)
    have ylo: "length h0 \<le> ?y" using inv unfolding dc_inv_def by blast
    have u2: "unvisited h0 st2 < n"
      using unvisited_new[OF inv a None m2] u by simp
    have "\<exists>st'. deepcopy_items n ?y (entries (h0 ! a)) st2 = Some st'
             \<and> dci_post h0 ?y (entries (h0 ! a)) st2 st'"
    proof (rule Q[OF inv2 ylo _ _ _ _ u2])
      show "?y < length (heap st2)" by (simp add: h2)
      show "list_all (wf_val (length h0)) (map snd (entries (h0 ! a)))"
        using wfo by (simp add: wf_obj_def)
      show "distinct (map fst (entries (h0 ! a)))" using wfo by (simp add: wf_obj_def)
      show "set (map fst (entries (h0 ! a))) \<inter> fst ` set (entries (heap st2 ! ?y)) = {}"
        by (simp add: h2 new_like_def)
    qed
    then obtain st3 where d3: "deepcopy_items n ?y (entries (h0 ! a)) st2 = Some st3"
      and p3: "dci_post h0 ?y (entries (h0 ! a)) st2 st3" by blast
    have inv3: "dc_inv h0 st3" and le3: "memo st2 \<subseteq>\<^sub>m memo st3"
      and len3: "length (heap st2) \<le> length (heap st3)"
      and fr3: "\<And>c. c < length (heap st2) \<Longrightarrow> c \<noteq> ?y \<Longrightarrow> heap st3 ! c = heap st2 ! c"
      and k3: "kind (heap st3 ! ?y) = kind (heap st2 ! ?y)"
      and e3: "entries (heap st3 ! ?y)
           = entries (heap st2 ! ?y) @ map (\<lambda>(k, v). (k, copy_val (memo st3) v)) (entries (h0 ! a))"
      and rf3: "\<forall>v \<in> snd ` set (entries (h0 ! a)). \<forall>d. v = HRef d \<longrightarrow> d \<in> dom (memo st3)"
      and fin3: "\<And>b. b \<in> dom (memo st3) - dom (memo st2) \<Longrightarrow> dc_fin h0 st3 b"
      using p3 unfolding dci_post_def by blast+
    have alt: "\<not> length (heap st) \<le> a" using a ylo by simp
    have res: "deepcopy (Suc n) v st = Some (HRef ?y, st3)"
      using None d3 alt by (simp add: HRef alloc_def self st2_def Let_def)
    have ma: "memo st3 a = Some ?y" using le3 by (auto simp: map_le_def m2 dom_def)
    have le2: "memo st \<subseteq>\<^sub>m memo st2" using None by (auto simp: map_le_def m2)
    have b1: "memo st \<subseteq>\<^sub>m memo st3" using le2 le3 by (rule map_le_trans)
    have b2: "length (heap st) \<le> length (heap st3)" using len3 by (simp add: h2)
    have b3: "\<forall>c < length (heap st). heap st3 ! c = heap st ! c"
    proof (intro allI impI)
      fix c assume c: "c < length (heap st)"
      then have "heap st3 ! c = heap st2 ! c" by (intro fr3) (simp_all add: h2)
      then show "heap st3 ! c = heap st ! c" using c by (simp add: h2 nth_append)
    qed
    have b4: "HRef ?y = copy_val (memo st3) v" using ma by (simp add: HRef copy_val_def)
    have b5: "\<forall>d. v = HRef d \<longrightarrow> d \<in> dom (memo st3)" using ma by (auto simp: HRef)
    have fa: "dc_fin h0 st3 a"
      unfolding dc_fin_def using ma k3 e3 rf3 by (simp add: h2 new_like_def self)
    have b6: "\<forall>b \<in> dom (memo st3) - dom (memo st). dc_fin h0 st3 b"
    proof
      fix b assume b: "b \<in> dom (memo st3) - dom (memo st)"
      show "dc_fin h0 st3 b"
      proof (cases "b = a")
        case True then show ?thesis using fa by simp
      next
        case False
        then have "b \<in> dom (memo st3) - dom (memo st2)" using b by (auto simp: m2)
        then show ?thesis by (rule fin3)
      qed
    qed
    have "dc_post h0 v st (HRef ?y) st3"
      unfolding dc_post_def using inv3 b1 b2 b3 b4 b5 b6 by blast
    with res show ?thesis by blast
  qed
qed

lemma deepcopy_spec:
  assumes wf: "wf_heap h0"
  shows "dc_inv h0 st \<Longrightarrow> wf_val (length h0) v \<Longrightarrow> unvisited h0 st < n \<Longrightarrow>
         \<exists>v' st'. deepcopy n v st = Some (v', st') \<and> dc_post h0 v st v' st'"
proof (induction n arbitrary: v st)
  case 0
  then show ?case by simp
next
  case (Suc n)
  show ?case
  proof (rule dc_step[OF _ wf Suc.prems])
    fix y items st
    assume *: "dc_inv h0 st" "length h0 \<le> y" "y < length (heap st)"
      "list_all (wf_val (length h0)) (map snd items)" "distinct (map fst items)"
      "set (map fst items) \<inter> fst ` set (entries (heap st ! y)) = {}"
      "unvisited h0 st < n"
    have P: "\<And>v st. dc_inv h0 st \<Longrightarrow> wf_val (length h0) v \<Longrightarrow> unvisited h0 st < n \<Longrightarrow>
                \<exists>v' st'. deepcopy n v st = Some (v', st') \<and> dc_post h0 v st v' st'"
      by (rule Suc.IH)
    from dci_step[of h0 n, OF P] *
    show "\<exists>st'. deepcopy_items n y items st = Some st' \<and> dci_post h0 y items st st'"
      by blast
  qed
qed

lemma deepcopy_items_fuel_Suc:
  assumes R: "\<And>v st r. deepcopy n v st = Some r \<Longrightarrow> deepcopy (Suc n) v st = Some r"
  shows "deepcopy_items n y items st = Some st' \<Longrightarrow> deepcopy_items (Suc n) y items st = Some st'"
proof (induction items arbitrary: st)
  case Nil
  then show ?case by simp
next
  case (Cons x rest)
  obtain k v where x: "x = (k, v)" by (cases x)
  from Cons.prems obtain v' st1 where d: "deepcopy n v st = Some (v', st1)"
    and r: "deepcopy_items n y rest (set_field y k v' st1) = Some st'"
    by (auto simp: x split: option.splits)
  from R[OF d] Cons.IH[OF r] show ?case by (simp add: x)
qed

lemma deepcopy_fuel_Suc:
  "deepcopy n v st = Some r \<Longrightarrow> deepcopy (Suc n) v st = Some r"
proof (induction n arbitrary: v st r)
  case 0
  then show ?case by simp
next
  case (Suc n)
  show ?case
  proof (cases v)
    case HNone
    with Suc.prems show ?thesis by simp
  next
    case (HStr s)
    with Suc.prems show ?thesis by simp
  next
    case (HRef a)
    show ?thesis
    proof (cases "memo st a")
      case (Some y)
      with Suc.prems HRef show ?thesis by simp
    next
      case None
      let ?y = "length (heap st)"
      let ?st2 = "st\<lparr>heap := heap st @ [new_like (heap st ! a)], memo := (memo st)(a \<mapsto> ?y)\<rparr>"
      from Suc.prems have alt: "\<not> length (heap st) \<le> a"
        by (auto simp: HRef None split: if_splits)
      from Suc.prems obtain st3 where
        d: "deepcopy_items n ?y (entries (heap st ! a)) ?st2 = Some st3"
        and r: "r = (HRef ?y, st3)"
        by (auto simp: HRef None alloc_def Let_def split: option.splits if_splits)
      have R: "\<And>v st r. deepcopy n v st = Some r \<Longrightarrow> deepcopy (Suc n) v st = Some r"
        by (rule Suc.IH)
      have "deepcopy_items (Suc n) ?y (entries (heap st ! a)) ?st2 = Some st3"
        using deepcopy_items_fuel_Suc[of n, OF R d] .
      then show ?thesis using alt by (simp add: HRef None alloc_def Let_def r)
    qed
  qed
qed

lemma deepcopy_fuel_mono:
  "deepcopy n v st = Some r \<Longrightarrow> n \<le> m \<Longrightarrow> deepcopy m v st = Some r"
proof (induction m)
  case 0
  then show ?case by simp
next
  case (Suc m)
  show ?case
  proof (cases "n = Suc m")
    case True
    with Suc.prems show ?thesis by simp
  next
    case False
    with Suc.prems have "n \<le> m" by simp
    from Suc.IH[OF Suc.prems(1) this] show ?thesis by (rule deepcopy_fuel_Suc)
  qed
qed

lemma dc_inv_init: "dc_inv h \<lparr>heap = h, memo = Map.empty\<rparr>"
  by (simp add: dc_inv_def)

text \<open>
  Claim C6. For every well-formed heap and every object in it (an InputSet in
  particular), whether the graph reachable from it has shared parts or cycles or not:
  the deep copy returns, with any fuel above the number of objects, a reference to a
  new object; no object of the original heap is changed; the memo maps each original
  that was reached to exactly one copy, different originals to different copies, and
  every object allocated is the copy of one original, so nothing shared is copied
  twice; each copy has the kind of its original and the same entries with every
  reference replaced by the copy of its target, so the copies refer to copies only
  (a cycle in the original is a cycle among the copies); therefore an assignment to
  any object of the copy leaves the original heap as it was. \<^verbatim>\<open>__deepcopy__\<close> stores
  the new instance in the memo before it copies the entries, which is what ends the
  recursion on a cycle.
\<close>

theorem C6_deepcopy:
  assumes wf: "wf_heap h" and a: "a < length h"
  shows "\<exists>y st'. deepcopy_object h a = Some (HRef y, st')
     \<and> (\<forall>n. length h < n \<longrightarrow>
           deepcopy n (HRef a) \<lparr>heap = h, memo = Map.empty\<rparr> = Some (HRef y, st'))
     \<and> take (length h) (heap st') = h
     \<and> memo st' a = Some y
     \<and> (\<forall>b c. memo st' b = Some c \<longrightarrow>
           b < length h \<and> length h \<le> c \<and> c < length (heap st')
           \<and> kind (heap st' ! c) = kind (h ! b)
           \<and> entries (heap st' ! c)
               = map (\<lambda>(k, v). (k, copy_val (memo st') v)) (entries (h ! b))
           \<and> (\<forall>v \<in> snd ` set (entries (h ! b)). \<forall>d. v = HRef d \<longrightarrow> d \<in> dom (memo st')))
     \<and> inj_on (memo st') (dom (memo st'))
     \<and> (\<forall>c. length h \<le> c \<and> c < length (heap st') \<longrightarrow>
           (\<exists>b. memo st' b = Some c)
           \<and> (\<forall>v \<in> snd ` set (entries (heap st' ! c)). \<forall>d. v = HRef d \<longrightarrow>
                 length h \<le> d \<and> d < length (heap st')))
     \<and> (\<forall>c x. length h \<le> c \<longrightarrow> take (length h) ((heap st')[c := x]) = h)"
proof -
  let ?st0 = "\<lparr>heap = h, memo = Map.empty\<rparr>"
  have u0: "unvisited h ?st0 < Suc (length h)" by (simp add: unvisited_def)
  have wfv: "wf_val (length h) (HRef a)" using a by (simp add: wf_val_def)
  from deepcopy_spec[OF wf dc_inv_init wfv u0] obtain v' st' where
    d: "deepcopy (Suc (length h)) (HRef a) ?st0 = Some (v', st')"
    and p: "dc_post h (HRef a) ?st0 v' st'" by blast
  have inv: "dc_inv h st'" and v': "v' = copy_val (memo st') (HRef a)"
    and ad: "a \<in> dom (memo st')"
    and fin: "\<And>b. b \<in> dom (memo st') \<Longrightarrow> dc_fin h st' b"
    using p unfolding dc_post_def by auto
  from ad obtain y where y: "memo st' a = Some y" by blast
  have vy: "v' = HRef y" using v' y by (simp add: copy_val_def)
  from inv have i1: "take (length h) (heap st') = h"
    and i2: "\<And>b c. memo st' b = Some c \<Longrightarrow> b < length h \<and> length h \<le> c \<and> c < length (heap st')"
    and i3: "inj_on (memo st') (dom (memo st'))"
    and i4: "\<And>c. length h \<le> c \<Longrightarrow> c < length (heap st') \<Longrightarrow> \<exists>b. memo st' b = Some c"
    unfolding dc_inv_def by blast+
  have 1: "deepcopy_object h a = Some (HRef y, st')"
    using d vy by (simp add: deepcopy_object_def)
  have 2: "\<forall>n. length h < n \<longrightarrow> deepcopy n (HRef a) ?st0 = Some (HRef y, st')"
    using d vy deepcopy_fuel_mono[of "Suc (length h)" "HRef a" ?st0 "(HRef y, st')"] by simp
  have copies: "b < length h \<and> length h \<le> c \<and> c < length (heap st')
           \<and> kind (heap st' ! c) = kind (h ! b)
           \<and> entries (heap st' ! c)
               = map (\<lambda>(k, v). (k, copy_val (memo st') v)) (entries (h ! b))
           \<and> (\<forall>v \<in> snd ` set (entries (h ! b)). \<forall>d. v = HRef d \<longrightarrow> d \<in> dom (memo st'))"
    if bc: "memo st' b = Some c" for b c
  proof -
    have "dc_fin h st' b" using bc by (intro fin) auto
    then show ?thesis using bc i2[OF bc] unfolding dc_fin_def by auto
  qed
  have 5: "(\<exists>b. memo st' b = Some c)
           \<and> (\<forall>v \<in> snd ` set (entries (heap st' ! c)). \<forall>d. v = HRef d \<longrightarrow>
                 length h \<le> d \<and> d < length (heap st'))"
    if c: "length h \<le> c \<and> c < length (heap st')" for c
  proof -
    from c i4 obtain b where b: "memo st' b = Some c" by blast
    note cb = copies[OF b]
    have "length h \<le> d \<and> d < length (heap st')"
      if w: "w \<in> snd ` set (entries (heap st' ! c))" and wd: "w = HRef d" for w d
    proof -
      from w cb obtain k v where kv: "(k, v) \<in> set (entries (h ! b))"
        and wv: "w = copy_val (memo st') v" by auto
      show ?thesis
      proof (cases v)
        case HNone with wv wd show ?thesis by (simp add: copy_val_def)
      next
        case (HStr s) with wv wd show ?thesis by (simp add: copy_val_def)
      next
        case (HRef e)
        have "v \<in> snd ` set (entries (h ! b))" using kv by force
        with cb HRef have "e \<in> dom (memo st')" by blast
        then obtain f where f: "memo st' e = Some f" by blast
        then have "d = f" using wv wd HRef by (simp add: copy_val_def)
        with i2[OF f] show ?thesis by simp
      qed
    qed
    with b show ?thesis by blast
  qed
  have 6: "\<forall>c x. length h \<le> c \<longrightarrow> take (length h) ((heap st')[c := x]) = h"
    using i1 by simp
  from 1 2 i1 y copies i3 5 6 show ?thesis by blast
qed

lemma c6_wf: "wf_heap c6_heap"
  by (simp add: wf_heap_def c6_heap_def wf_obj_def wf_val_def)

lemma c6_run:
  "\<exists>st. deepcopy_object c6_heap 0 = Some (HRef 4, st) \<and> heap st = c6_heap @ c6_copies
        \<and> memo st 0 = Some 4 \<and> memo st 1 = Some 5 \<and> memo st 2 = Some 7 \<and> memo st 3 = Some 6"
  by (simp add: deepcopy_object_def c6_heap_def c6_copies_def alloc_def new_like_def
      set_field_def Let_def)


theorem C6_deepcopy_witness:
  "wf_heap c6_heap \<and> 0 < length c6_heap
   \<and> (\<exists>st'. deepcopy_object c6_heap 0 = Some (HRef 4, st')
          \<and> deepcopy 9 (HRef 0) \<lparr>heap = c6_heap, memo = Map.empty\<rparr> = Some (HRef 4, st')
          \<and> heap st' = c6_heap @ c6_copies
          \<and> take (length c6_heap) (heap st') = c6_heap
          \<and> memo st' 0 = Some 4 \<and> memo st' 3 = Some 6
          \<and> kind (heap st' ! 6) = kind (c6_heap ! 3)
          \<and> inj_on (memo st') (dom (memo st'))
          \<and> take (length c6_heap) ((heap st')[6 := \<lparr>kind = KObject ''Incar'', entries = []\<rparr>])
              = c6_heap)"
proof -
  have a: "0 < length c6_heap" by (simp add: c6_heap_def)
  from C6_deepcopy [OF c6_wf a] obtain y st' where
    r: "deepcopy_object c6_heap 0 = Some (HRef y, st')"
    and f: "\<forall>n. length c6_heap < n \<longrightarrow>
           deepcopy n (HRef 0) \<lparr>heap = c6_heap, memo = Map.empty\<rparr> = Some (HRef y, st')"
    and t: "take (length c6_heap) (heap st') = c6_heap"
    and c: "\<forall>b c. memo st' b = Some c \<longrightarrow>
           b < length c6_heap \<and> length c6_heap \<le> c \<and> c < length (heap st')
           \<and> kind (heap st' ! c) = kind (c6_heap ! b)
           \<and> entries (heap st' ! c)
               = map (\<lambda>(k, v). (k, copy_val (memo st') v)) (entries (c6_heap ! b))
           \<and> (\<forall>v \<in> snd ` set (entries (c6_heap ! b)). \<forall>d. v = HRef d \<longrightarrow> d \<in> dom (memo st'))"
    and i: "inj_on (memo st') (dom (memo st'))"
    and m: "\<forall>c x. length c6_heap \<le> c \<longrightarrow> take (length c6_heap) ((heap st')[c := x]) = c6_heap"
    by blast
  from c6_run obtain st where
    s: "deepcopy_object c6_heap 0 = Some (HRef 4, st)" "heap st = c6_heap @ c6_copies"
      "memo st 0 = Some 4" "memo st 3 = Some 6"
    by blast
  from r s(1) have eq: "y = 4" "st' = st" by simp_all
  have l: "length c6_heap < 9" "length c6_heap \<le> 6" by (simp_all add: c6_heap_def)
  have k: "kind (heap st' ! 6) = kind (c6_heap ! 3)" using c s(4) eq by blast
  from a c6_wf r f t i m s(2,3,4) eq l k show ?thesis by auto
qed

end
